theory Spec2Isabelle
  imports Main
begin

section \<open>The store of stashr (store/store.go)\<close>

subsection \<open>Time\<close>

text \<open>
  A \<open>time.Time\<close> is modelled as an integer count of nanoseconds measured from Go's zero
  instant, so that \<open>t.IsZero()\<close> is \<open>t = 0\<close>; a \<open>time.Duration\<close> is an integer count of
  nanoseconds. \<open>t.After(u)\<close> is the strict comparison of the two instants and
  \<open>t.Add(d)\<close> is addition: a Duration is a 64-bit count, at most some 292 years, and
  added to a reading of the clock it stays far inside the range of \<open>time.Time\<close>, so
  nothing wraps. Every call of \<open>time.Now()\<close> in the source is a parameter \<open>now\<close> of the
  function that makes the call.
\<close>

type_synonym time = int
type_synonym duration = int

definition IsZero :: "time \<Rightarrow> bool" where
  "IsZero t = (t = 0)"

definition After :: "time \<Rightarrow> time \<Rightarrow> bool" where
  "After t u = (u < t)"

definition Add :: "time \<Rightarrow> duration \<Rightarrow> time" where
  "Add t d = t + d"

subsection \<open>Data model\<close>

text \<open>
  \<open>type entry struct { value string; expiresAt time.Time }\<close>; the zero \<open>expiresAt\<close>
  means no expiry. The field \<open>value\<close> is named \<open>value_e\<close> here.
\<close>

record entry =
  value_e :: string
  expiresAt :: time

text \<open>
  \<open>func (e *entry) expired() bool\<close> (lines 13 to 15):
  \<open>!e.expiresAt.IsZero() && time.Now().After(e.expiresAt)\<close>.
\<close>

definition expired :: "entry \<Rightarrow> time \<Rightarrow> bool" where
  "expired e now = (\<not> IsZero (expiresAt e) \<and> After now (expiresAt e))"

text \<open>
  \<open>sync.RWMutex\<close>: any number of readers or one writer. \<open>chan struct{}\<close> on which
  nothing is ever sent: all that matters is whether it has been closed.
\<close>

record RWMutex =
  readers :: nat
  writer :: bool

datatype chan = ChanOpen | ChanClosed

record Store =
  mu :: RWMutex
  data :: "string \<rightharpoonup> entry"
  stopGC :: chan

datatype panic = CloseOfClosedChannel

subsection \<open>Operations, one caller at a time\<close>

text \<open>
  Every method takes \<open>mu\<close> and releases it again before it returns. With one caller at a
  time the lock is free at each call and free again at each return, so the functions of
  this subsection leave \<open>mu\<close> as it is; the locking of \<open>Get\<close> and \<open>Set\<close> is written
  out statement by statement in the last subsection.
\<close>

definition unlocked :: RWMutex where
  "unlocked = \<lparr>readers = 0, writer = False\<rparr>"

text \<open>\<open>func New() *Store\<close> (lines 26 to 33).\<close>

definition New :: Store where
  "New = \<lparr>mu = unlocked, data = Map.empty, stopGC = ChanOpen\<rparr>"

text \<open>
  \<open>func (s *Store) Stop()\<close> (lines 60 to 62): \<open>close(s.stopGC)\<close>. Closing a channel
  never blocks; closing a closed channel panics.
\<close>

definition Stop :: "Store \<Rightarrow> panic + Store" where
  "Stop s =
     (case stopGC s of
        ChanClosed \<Rightarrow> Inl CloseOfClosedChannel
      | ChanOpen \<Rightarrow> Inr (s\<lparr>stopGC := ChanClosed\<rparr>))"

text \<open>
  \<open>func (s *Store) Get(key string) (string, bool)\<close> (lines 66 to 84). The clock is read
  once, by \<open>e.expired()\<close>, and only when the key is present.
\<close>

definition Get :: "string \<Rightarrow> time \<Rightarrow> Store \<Rightarrow> (string \<times> bool) \<times> Store" where
  "Get key now s =
     (case data s key of
        None \<Rightarrow> (('''', False), s)
      | Some e \<Rightarrow>
          if expired e now
          then (('''', False), s\<lparr>data := (data s)(key := None)\<rparr>)
          else ((value_e e, True), s))"

text \<open>
  \<open>func (s *Store) Set(key, value string, ttl time.Duration)\<close> (lines 87 to 95).
\<close>

definition Set :: "string \<Rightarrow> string \<Rightarrow> duration \<Rightarrow> time \<Rightarrow> Store \<Rightarrow> Store" where
  "Set key v ttl now s =
     (let e = \<lparr>value_e = v, expiresAt = 0\<rparr>;
          e = (if ttl > 0 then e\<lparr>expiresAt := Add now ttl\<rparr> else e)
      in s\<lparr>data := (data s)(key \<mapsto> e)\<rparr>)"

text \<open>
  \<open>func (s *Store) Delete(key string) bool\<close> (lines 98 to 108). In
  \<open>!ok || e.expired()\<close> the second operand is evaluated only when the key is present.
\<close>

definition Delete :: "string \<Rightarrow> time \<Rightarrow> Store \<Rightarrow> bool \<times> Store" where
  "Delete key now s =
     (case data s key of
        None \<Rightarrow> (False, s\<lparr>data := (data s)(key := None)\<rparr>)
      | Some e \<Rightarrow>
          if expired e now
          then (False, s\<lparr>data := (data s)(key := None)\<rparr>)
          else (True, s\<lparr>data := (data s)(key := None)\<rparr>))"

text \<open>
  \<open>for k, e := range s.data\<close> visits every key of the map once, in an order the
  language does not fix. The order is a parameter: a list of keys, \<open>range_order\<close> when
  it is one the loop can take. A key that is no longer in the map when its turn comes is
  not produced.
\<close>

definition range_order :: "string list \<Rightarrow> (string \<rightharpoonup> entry) \<Rightarrow> bool" where
  "range_order ks m = (distinct ks \<and> set ks = dom m)"

text \<open>
  \<open>func (s *Store) List() []string\<close> (lines 111 to 121). Each iteration calls
  \<open>e.expired()\<close>, which reads the clock anew: the loop is given, with each key, the
  reading of that iteration.
\<close>

fun List_loop :: "(string \<times> time) list \<Rightarrow> Store \<Rightarrow> string list \<Rightarrow> string list \<times> Store" where
  "List_loop [] s keys = (keys, s)"
| "List_loop ((k, now) # rest) s keys =
     (case data s k of
        None \<Rightarrow> List_loop rest s keys
      | Some e \<Rightarrow>
          if \<not> expired e now
          then List_loop rest s (keys @ [k])
          else List_loop rest s keys)"

definition List :: "(string \<times> time) list \<Rightarrow> Store \<Rightarrow> string list \<times> Store" where
  "List visits s = List_loop visits s []"

text \<open>
  \<open>func (s *Store) sweep()\<close> (lines 48 to 57): the clock is read once, before the loop,
  and the loop tests \<open>!e.expiresAt.IsZero() && now.After(e.expiresAt)\<close> itself.
\<close>

fun sweep_loop :: "string list \<Rightarrow> time \<Rightarrow> Store \<Rightarrow> Store" where
  "sweep_loop [] now s = s"
| "sweep_loop (k # ks) now s =
     (case data s k of
        None \<Rightarrow> sweep_loop ks now s
      | Some e \<Rightarrow>
          if \<not> IsZero (expiresAt e) \<and> After now (expiresAt e)
          then sweep_loop ks now (s\<lparr>data := (data s)(k := None)\<rparr>)
          else sweep_loop ks now s)"

definition sweep :: "string list \<Rightarrow> time \<Rightarrow> Store \<Rightarrow> Store" where
  "sweep ks now s = sweep_loop ks now s"

subsection \<open>Sequences of operations\<close>

text \<open>
  What can happen to a Store, one event at a time: the calls of its five methods and the
  sweeps of its background goroutine. Each event carries the clock readings and the
  iteration order it runs with. A panic ends the run, as it ends the caller.
\<close>

datatype operation =
    OpGet string time
  | OpSet string string duration time
  | OpDelete string time
  | OpList "(string \<times> time) list"
  | OpSweep "string list" time
  | OpStop

fun apply_op :: "operation \<Rightarrow> Store \<Rightarrow> panic + Store" where
  "apply_op (OpGet key now) s = Inr (snd (Get key now s))"
| "apply_op (OpSet key v ttl now) s = Inr (Set key v ttl now s)"
| "apply_op (OpDelete key now) s = Inr (snd (Delete key now s))"
| "apply_op (OpList visits) s = Inr (snd (List visits s))"
| "apply_op (OpSweep ks now) s = Inr (sweep ks now s)"
| "apply_op OpStop s = Stop s"

fun run :: "operation list \<Rightarrow> Store \<Rightarrow> panic + Store" where
  "run [] s = Inr s"
| "run (c # cs) s = (case apply_op c s of Inl p \<Rightarrow> Inl p | Inr s' \<Rightarrow> run cs s')"

definition writes_key :: "string \<Rightarrow> operation \<Rightarrow> bool" where
  "writes_key key c = (case c of OpSet k v ttl now \<Rightarrow> k = key | _ \<Rightarrow> False)"

subsection \<open>Get and Set, statement by statement\<close>

text \<open>
  The four operations of \<open>sync.RWMutex\<close> that the source uses. \<open>None\<close> is a step that
  cannot be taken now: \<open>RLock\<close> waits while a writer holds the lock, \<open>Lock\<close> waits while
  anyone holds it, and unlocking a lock that is not held is a fatal error of the runtime.
  Go also keeps a new reader waiting while a writer is waiting; that only removes
  schedules, and no caller waits along the schedules used below.
\<close>

definition RLock :: "RWMutex \<Rightarrow> RWMutex option" where
  "RLock m = (if writer m then None else Some (m\<lparr>readers := Suc (readers m)\<rparr>))"

definition RUnlock :: "RWMutex \<Rightarrow> RWMutex option" where
  "RUnlock m = (if readers m = 0 then None else Some (m\<lparr>readers := readers m - 1\<rparr>))"

definition Lock :: "RWMutex \<Rightarrow> RWMutex option" where
  "Lock m = (if writer m \<or> readers m \<noteq> 0 then None else Some (m\<lparr>writer := True\<rparr>))"

definition Unlock :: "RWMutex \<Rightarrow> RWMutex option" where
  "Unlock m = (if writer m then Some (m\<lparr>writer := False\<rparr>) else None)"

definition with_mu :: "(RWMutex \<Rightarrow> RWMutex option) \<Rightarrow> 'pc \<Rightarrow> Store \<Rightarrow> ('pc \<times> Store) option" where
  "with_mu f pc s = (case f (mu s) of None \<Rightarrow> None | Some m \<Rightarrow> Some (pc, s\<lparr>mu := m\<rparr>))"

text \<open>
  The control points of \<open>Get\<close>, named after the statement each is about to execute, with
  the local variables that are live there (\<open>e\<close>, \<open>val\<close> and the two results):
  \<open>Get_RLock\<close> is line 67, \<open>Get_lookup\<close> lines 68 and 69, \<open>Get_RUnlock_missing\<close> line 70,
  \<open>Get_expired\<close> line 73, \<open>Get_RUnlock_expired\<close> line 74, \<open>Get_Lock\<close> line 76,
  \<open>Get_delete\<close> line 77, \<open>Get_Unlock\<close> line 78, \<open>Get_val\<close> line 81,
  \<open>Get_RUnlock_found\<close> line 82, and \<open>Get_return\<close> the returns of lines 71, 79 and 83.
  The clock is read at \<open>Get_expired\<close> only.
\<close>

datatype get_pc =
    Get_RLock
  | Get_lookup
  | Get_RUnlock_missing
  | Get_expired entry
  | Get_RUnlock_expired
  | Get_Lock
  | Get_delete
  | Get_Unlock
  | Get_val entry
  | Get_RUnlock_found string
  | Get_return string bool

fun Get_step :: "string \<Rightarrow> time \<Rightarrow> get_pc \<Rightarrow> Store \<Rightarrow> (get_pc \<times> Store) option" where
  "Get_step key now Get_RLock s = with_mu RLock Get_lookup s"
| "Get_step key now Get_lookup s =
     (case data s key of
        None \<Rightarrow> Some (Get_RUnlock_missing, s)
      | Some e \<Rightarrow> Some (Get_expired e, s))"
| "Get_step key now Get_RUnlock_missing s = with_mu RUnlock (Get_return '''' False) s"
| "Get_step key now (Get_expired e) s =
     (if expired e now then Some (Get_RUnlock_expired, s) else Some (Get_val e, s))"
| "Get_step key now Get_RUnlock_expired s = with_mu RUnlock Get_Lock s"
| "Get_step key now Get_Lock s = with_mu Lock Get_delete s"
| "Get_step key now Get_delete s = Some (Get_Unlock, s\<lparr>data := (data s)(key := None)\<rparr>)"
| "Get_step key now Get_Unlock s = with_mu Unlock (Get_return '''' False) s"
| "Get_step key now (Get_val e) s = Some (Get_RUnlock_found (value_e e), s)"
| "Get_step key now (Get_RUnlock_found val) s = with_mu RUnlock (Get_return val True) s"
| "Get_step key now (Get_return val ok) s = None"

text \<open>
  The control points of \<open>Set\<close>: \<open>Set_entry\<close> is lines 88 to 91, \<open>Set_Lock\<close> line 92,
  \<open>Set_store\<close> line 93 and \<open>Set_Unlock\<close> line 94. The entry is built, and the clock
  read, before the lock is taken.
\<close>

datatype set_pc =
    Set_entry
  | Set_Lock entry
  | Set_store entry
  | Set_Unlock
  | Set_return

fun Set_step :: "string \<Rightarrow> string \<Rightarrow> duration \<Rightarrow> time \<Rightarrow> set_pc \<Rightarrow> Store \<Rightarrow> (set_pc \<times> Store) option" where
  "Set_step key v ttl now Set_entry s =
     (let e = \<lparr>value_e = v, expiresAt = 0\<rparr>;
          e = (if ttl > 0 then e\<lparr>expiresAt := Add now ttl\<rparr> else e)
      in Some (Set_Lock e, s))"
| "Set_step key v ttl now (Set_Lock e) s = with_mu Lock (Set_store e) s"
| "Set_step key v ttl now (Set_store e) s = Some (Set_Unlock, s\<lparr>data := (data s)(key \<mapsto> e)\<rparr>)"
| "Set_step key v ttl now Set_Unlock s = with_mu Unlock Set_return s"
| "Set_step key v ttl now Set_return s = None"

text \<open>
  Concurrent callers: each is a call in progress, and a schedule says which caller
  takes the next step and what the clock reads then. A schedule that asks a caller for
  a step it cannot take is not a run of the program (\<open>None\<close>).
\<close>

datatype thread =
    Get_call string get_pc
  | Set_call string string duration set_pc

fun thread_step :: "time \<Rightarrow> thread \<Rightarrow> Store \<Rightarrow> (thread \<times> Store) option" where
  "thread_step now (Get_call key pc) s =
     (case Get_step key now pc s of
        None \<Rightarrow> None
      | Some (pc', s') \<Rightarrow> Some (Get_call key pc', s'))"
| "thread_step now (Set_call key v ttl pc) s =
     (case Set_step key v ttl now pc s of
        None \<Rightarrow> None
      | Some (pc', s') \<Rightarrow> Some (Set_call key v ttl pc', s'))"

fun exec :: "(nat \<times> time) list \<Rightarrow> Store \<times> thread list \<Rightarrow> (Store \<times> thread list) option" where
  "exec [] c = Some c"
| "exec ((i, now) # sched) (s, ts) =
     (if i < length ts
      then (case thread_step now (ts ! i) s of
              None \<Rightarrow> None
            | Some (t', s') \<Rightarrow> exec sched (s', ts[i := t']))
      else None)"

text \<open>The clock never runs backwards along a schedule.\<close>

fun clock_monotone :: "time \<Rightarrow> (nat \<times> time) list \<Rightarrow> bool" where
  "clock_monotone t [] = True"
| "clock_monotone t ((i, now) # sched) = (t \<le> now \<and> clock_monotone now sched)"

text \<open>
  The schedule of the lazy-expiry race, for caller 0 in \<open>Get\<close> and caller 1 in \<open>Set\<close> on
  the same key: \<open>Get\<close> takes the read lock, finds the entry, finds it expired and gives
  the read lock back (clock at \<open>t1\<close>); \<open>Set\<close> runs from its first statement to its last
  (clock at \<open>t2\<close>); \<open>Get\<close> takes the write lock, deletes the key and unlocks (clock at
  \<open>t3\<close>). No caller ever waits for the lock along it.
\<close>

definition race_schedule :: "time \<Rightarrow> time \<Rightarrow> time \<Rightarrow> (nat \<times> time) list" where
  "race_schedule t1 t2 t3 =
     [(0, t1), (0, t1), (0, t1), (0, t1)] @
     [(1, t2), (1, t2), (1, t2), (1, t2)] @
     [(0, t3), (0, t3), (0, t3)]"

text \<open>The entry that \<open>Set\<close> builds for a value and a ttl when the clock reads \<open>now\<close>.\<close>

definition fresh_entry :: "string \<Rightarrow> duration \<Rightarrow> time \<Rightarrow> entry" where
  "fresh_entry v ttl now = \<lparr>value_e = v, expiresAt = (if ttl > 0 then Add now ttl else 0)\<rparr>"

subsection \<open>A store to compute with\<close>

text \<open>
  Three calls of \<open>Set\<close> on a new Store, with the clock at 100: key \<open>a\<close> expires at 105,
  key \<open>b\<close> at 103, and key \<open>p\<close> never does.
\<close>

definition demo :: Store where
  "demo = Set ''p'' ''yes'' 0 100 (Set ''b'' ''2'' 3 100 (Set ''a'' ''1'' 5 100 New))"

section \<open>Properties\<close>

subsection \<open>Facts shared by the proofs\<close>

lemma expired_iff: "expired e now = (expiresAt e \<noteq> 0 \<and> expiresAt e < now)"
  by (simp add: expired_def IsZero_def After_def)

lemma Stop_open: "stopGC s = ChanOpen \<Longrightarrow> Stop s = Inr (s\<lparr>stopGC := ChanClosed\<rparr>)"
  by (simp add: Stop_def)

lemma Stop_closed: "stopGC s = ChanClosed \<Longrightarrow> Stop s = Inl CloseOfClosedChannel"
  by (simp add: Stop_def)

lemma List_loop_store: "snd (List_loop visits s keys) = s"
  by (induction visits s keys rule: List_loop.induct) (auto split: option.splits)

lemma List_loop_keys:
  "fst (List_loop visits s keys) =
     keys @ map fst (filter (\<lambda>(k, now). case data s k of None \<Rightarrow> False | Some e \<Rightarrow> \<not> expired e now) visits)"
  by (induction visits s keys rule: List_loop.induct) (auto split: option.splits)

lemma List_keys:
  "fst (List visits s) =
     map fst (filter (\<lambda>(k, now). case data s k of None \<Rightarrow> False | Some e \<Rightarrow> \<not> expired e now) visits)"
  by (simp add: List_def List_loop_keys)

lemma set_List:
  "set (fst (List visits s)) =
     {k. \<exists>e now. data s k = Some e \<and> (k, now) \<in> set visits \<and> \<not> expired e now}"
  by (force simp: List_keys split: option.splits)

lemma distinct_List: "distinct (map fst visits) \<Longrightarrow> distinct (fst (List visits s))"
  by (simp add: List_keys distinct_map_filter)

lemma sweep_loop_stopGC: "stopGC (sweep_loop ks now s) = stopGC s"
  by (induction ks now s rule: sweep_loop.induct) (auto split: option.splits)

lemma sweep_loop_mu: "mu (sweep_loop ks now s) = mu s"
  by (induction ks now s rule: sweep_loop.induct) (auto split: option.splits)

lemma sweep_loop_data:
  "data (sweep_loop ks now s) k =
     (case data s k of
        None \<Rightarrow> None
      | Some e \<Rightarrow> if k \<in> set ks \<and> expired e now then None else Some e)"
  by (induction ks now s rule: sweep_loop.induct)
    (auto simp: expired_def split: option.splits)

lemma sweep_loop_eq:
  "sweep_loop ks now s =
     s\<lparr>data := (\<lambda>k. case data s k of
                     None \<Rightarrow> None
                   | Some e \<Rightarrow> if k \<in> set ks \<and> expired e now then None else Some e)\<rparr>"
proof -
  have "data (sweep_loop ks now s) =
      (\<lambda>k. case data s k of
              None \<Rightarrow> None
            | Some e \<Rightarrow> if k \<in> set ks \<and> expired e now then None else Some e)"
    by (rule ext) (rule sweep_loop_data)
  moreover have "mu (sweep_loop ks now s) = mu s" "stopGC (sweep_loop ks now s) = stopGC s"
    by (simp_all add: sweep_loop_mu sweep_loop_stopGC)
  ultimately show ?thesis by simp
qed

lemma apply_op_stopGC:
  "c \<noteq> OpStop \<Longrightarrow> \<exists>s'. apply_op c s = Inr s' \<and> stopGC s' = stopGC s"
  by (cases c) (auto simp: Get_def Set_def Delete_def List_def List_loop_store sweep_def
      sweep_loop_stopGC Let_def split: option.splits)

lemma apply_op_absent:
  "\<not> writes_key key c \<Longrightarrow> apply_op c s = Inr s' \<Longrightarrow> data s key = None \<Longrightarrow> data s' key = None"
  by (cases c)
    (auto simp: writes_key_def Get_def Set_def Delete_def List_def List_loop_store sweep_def
      sweep_loop_data Stop_def Let_def split: option.splits if_splits chan.splits)

lemma run_absent:
  "\<forall>c \<in> set cs. \<not> writes_key key c \<Longrightarrow> run cs s = Inr s' \<Longrightarrow> data s key = None \<Longrightarrow>
   data s' key = None"
proof (induction cs arbitrary: s)
  case Nil
  then show ?case by simp
next
  case (Cons c cs)
  from Cons.prems(2) obtain s1 where s1: "apply_op c s = Inr s1" "run cs s1 = Inr s'"
    by (auto split: sum.splits)
  from Cons.prems(1) have "\<not> writes_key key c" by simp
  from apply_op_absent [OF this s1(1) Cons.prems(3)] have "data s1 key = None" .
  with Cons.IH [of s1] Cons.prems(1) s1(2) show ?case by simp
qed

lemma run_Gets_found:
  "data s key = Some e \<Longrightarrow> expiresAt e = 0 \<Longrightarrow> run (map (OpGet key) ts) s = Inr s"
  by (induction ts) (simp_all add: Get_def expired_iff)

text \<open>The store of the examples, field by field.\<close>

lemma demo_eq:
  "demo = \<lparr>mu = unlocked,
           data = [''a'' \<mapsto> \<lparr>value_e = ''1'', expiresAt = 105\<rparr>,
                   ''b'' \<mapsto> \<lparr>value_e = ''2'', expiresAt = 103\<rparr>,
                   ''p'' \<mapsto> \<lparr>value_e = ''yes'', expiresAt = 0\<rparr>],
           stopGC = ChanOpen\<rparr>"
  by (simp add: demo_def Set_def New_def Add_def)

lemma data_demo:
  "data demo ''a'' = Some \<lparr>value_e = ''1'', expiresAt = 105\<rparr>"
  "data demo ''b'' = Some \<lparr>value_e = ''2'', expiresAt = 103\<rparr>"
  "data demo ''p'' = Some \<lparr>value_e = ''yes'', expiresAt = 0\<rparr>"
  "data demo ''z'' = None"
  "dom (data demo) = {''a'', ''b'', ''p''}"
  by (auto simp: demo_eq)

subsection \<open>A caller alone takes the steps of the sequential function\<close>

lemma Get_alone:
  "mu s = unlocked \<Longrightarrow>
   exec (replicate (case data s key of None \<Rightarrow> 3 | Some e \<Rightarrow> if expired e now then 7 else 5) (0, now))
     (s, [Get_call key Get_RLock]) =
   Some (snd (Get key now s),
     [Get_call key (Get_return (fst (fst (Get key now s))) (snd (fst (Get key now s))))])"
  by (cases s)
    (auto simp: Get_def with_mu_def RLock_def RUnlock_def Lock_def Unlock_def unlocked_def
      eval_nat_numeral split: option.splits)

lemma Set_alone:
  "mu s = unlocked \<Longrightarrow>
   exec (replicate 4 (0, now)) (s, [Set_call key v ttl Set_entry]) =
   Some (Set key v ttl now s, [Set_call key v ttl Set_return])"
  by (cases s)
    (auto simp: Set_def with_mu_def Lock_def Unlock_def unlocked_def Let_def eval_nat_numeral)

subsection \<open>Stop\<close>

lemma run_closed:
  "stopGC s = ChanClosed \<Longrightarrow> (\<exists>s'. run cs s = Inr s') = (OpStop \<notin> set cs)"
proof (induction cs arbitrary: s)
  case Nil
  then show ?case by simp
next
  case (Cons c cs)
  show ?case
  proof (cases "c = OpStop")
    case True
    then show ?thesis using Cons.prems by (simp add: Stop_closed)
  next
    case False
    with apply_op_stopGC [of c s] obtain s' where s': "apply_op c s = Inr s'" "stopGC s' = stopGC s"
      by blast
    then show ?thesis using Cons.IH [of s'] Cons.prems False by auto
  qed
qed

lemma run_open:
  "stopGC s = ChanOpen \<Longrightarrow> (\<exists>s'. run cs s = Inr s') = (count_list cs OpStop \<le> 1)"
proof (induction cs arbitrary: s)
  case Nil
  then show ?case by simp
next
  case (Cons c cs)
  show ?case
  proof (cases "c = OpStop")
    case True
    have "stopGC (s\<lparr>stopGC := ChanClosed\<rparr>) = ChanClosed" by simp
    from run_closed [OF this, of cs] show ?thesis
      using True Cons.prems by (simp add: Stop_open count_list_0_iff)
  next
    case False
    with apply_op_stopGC [of c s] obtain s' where s': "apply_op c s = Inr s'" "stopGC s' = stopGC s"
      by blast
    then show ?thesis using Cons.IH [of s'] Cons.prems False by auto
  qed
qed

text \<open>
  C1, as stated: a sequence of operations with two or more calls of Stop runs without a
  panic. It does not: on a new Store the first Stop closes the channel and the second
  one closes a closed channel, which panics.
\<close>

theorem C1_second_Stop_panics:
  "Stop New = Inr (New\<lparr>stopGC := ChanClosed\<rparr>) \<and>
   Stop (New\<lparr>stopGC := ChanClosed\<rparr>) = Inl CloseOfClosedChannel \<and>
   run [OpStop, OpStop] New = Inl CloseOfClosedChannel"
  by (simp add: New_def Stop_def)

text \<open>
  C1, amended: Stop returns at once (closing a channel never waits), and a sequence of
  operations on a new Store runs to its end without a panic exactly when it calls Stop
  at most once; the first call closes the channel, every later call panics.
\<close>

theorem C1_Stop_at_most_once:
  "(\<exists>s'. run cs New = Inr s') = (count_list cs OpStop \<le> 1)"
  by (rule run_open) (simp add: New_def)

theorem C1_Stop_at_most_once_witness:
  "(\<exists>s'. run [OpSet ''a'' ''1'' 0 10, OpStop, OpGet ''a'' 20] New = Inr s') \<and>
   count_list [OpSet ''a'' ''1'' 0 10, OpStop, OpGet ''a'' 20] OpStop \<le> 1"
  using C1_Stop_at_most_once [of "[OpSet ''a'' ''1'' 0 10, OpStop, OpGet ''a'' 20]"]
  by simp

subsection \<open>The expiration predicate\<close>

text \<open>
  C3, as stated: an entry is expired exactly when its expiresAt is set and now is at or
  after it. At the instant of expiry itself the code says otherwise: \<open>After\<close> is strict.
\<close>

theorem C3_not_expired_at_expiresAt:
  "\<not> (expired \<lparr>value_e = ''2'', expiresAt = 103\<rparr> 103 =
        (expiresAt \<lparr>value_e = ''2'', expiresAt = 103\<rparr> \<noteq> 0 \<and>
         103 \<ge> expiresAt \<lparr>value_e = ''2'', expiresAt = 103\<rparr>))"
  by (simp add: expired_iff)

text \<open>
  C3, amended: an entry is expired at the instant now exactly when its expiresAt is set
  (not the zero instant) and now is strictly after it; and for a key that is present,
  the found flag of Get, the result of Delete, the membership of the key in the result
  of List and the removal of the key by the sweeper are all decided by this one
  predicate, at the clock reading each of them takes.
\<close>

theorem C3_expired_strictly_after:
  "expired e now = (expiresAt e \<noteq> 0 \<and> expiresAt e < now) \<and>
   (data s key = Some e \<longrightarrow> snd (fst (Get key now s)) = (\<not> expired e now)) \<and>
   (data s key = Some e \<longrightarrow> fst (Delete key now s) = (\<not> expired e now)) \<and>
   (data s key = Some e \<and> distinct (map fst visits) \<and> (key, now) \<in> set visits \<longrightarrow>
      (key \<in> set (fst (List visits s))) = (\<not> expired e now)) \<and>
   (data s key = Some e \<and> key \<in> set ks \<longrightarrow>
      (data (sweep ks now s) key = None) = expired e now)"
proof (intro conjI impI)
  show "expired e now = (expiresAt e \<noteq> 0 \<and> expiresAt e < now)" by (rule expired_iff)
next
  assume "data s key = Some e"
  then show "snd (fst (Get key now s)) = (\<not> expired e now)" by (simp add: Get_def)
next
  assume "data s key = Some e"
  then show "fst (Delete key now s) = (\<not> expired e now)" by (simp add: Delete_def)
next
  assume a: "data s key = Some e \<and> distinct (map fst visits) \<and> (key, now) \<in> set visits"
  then have "\<And>t. (key, t) \<in> set visits \<Longrightarrow> t = now"
    by (meson eq_key_imp_eq_value)
  with a show "(key \<in> set (fst (List visits s))) = (\<not> expired e now)"
    by (auto simp: set_List)
next
  assume "data s key = Some e \<and> key \<in> set ks"
  then show "(data (sweep ks now s) key = None) = expired e now"
    by (simp add: sweep_def sweep_loop_data)
qed

text \<open>
  In the store of the examples key \<open>b\<close> expires at 103. One tick later all four
  operations treat it as expired.
\<close>

theorem C3_expired_strictly_after_witness:
  "data demo ''b'' = Some \<lparr>value_e = ''2'', expiresAt = 103\<rparr> \<and>
   distinct (map fst [(''p'', 104), (''b'', 104), (''a'', 104)]) \<and>
   (''b'', 104) \<in> set [(''p'', 104), (''b'', 104), (''a'', 104)] \<and>
   ''b'' \<in> set [''p'', ''b'', ''a''] \<and>
   expired \<lparr>value_e = ''2'', expiresAt = 103\<rparr> 104 \<and>
   snd (fst (Get ''b'' 104 demo)) = False \<and>
   fst (Delete ''b'' 104 demo) = False \<and>
   ''b'' \<notin> set (fst (List [(''p'', 104), (''b'', 104), (''a'', 104)] demo)) \<and>
   data (sweep [''p'', ''b'', ''a''] 104 demo) ''b'' = None"
proof -
  have d: "data demo ''b'' = Some \<lparr>value_e = ''2'', expiresAt = 103\<rparr>"
    by (rule data_demo)
  have x: "expired \<lparr>value_e = ''2'', expiresAt = 103\<rparr> 104"
    by (simp add: expired_iff)
  from d x
    C3_expired_strictly_after [where s = demo and key = "''b''" and now = 104
      and e = "\<lparr>value_e = ''2'', expiresAt = 103\<rparr>"
      and visits = "[(''p'', 104), (''b'', 104), (''a'', 104)]"
      and ks = "[''p'', ''b'', ''a'']"]
  show ?thesis by simp
qed

subsection \<open>Get\<close>

text \<open>
  C4: Get reports found exactly when the key is present with an entry that is not
  expired, and then returns its value and leaves the store as it is; a key that is
  absent, and so a key that no Set ever wrote since New, is reported not found; a key
  that is present with its expiration in the past is removed from the map and reported
  not found, so that it is absent afterwards.
\<close>

theorem C4_Get:
  "snd (fst (Get key now s)) = (\<exists>e. data s key = Some e \<and> \<not> expired e now) \<and>
   (data s key = Some e \<and> \<not> expired e now \<longrightarrow> Get key now s = ((value_e e, True), s)) \<and>
   (data s key = None \<longrightarrow> Get key now s = (('''', False), s)) \<and>
   ((\<forall>c \<in> set cs. \<not> writes_key key c) \<and> run cs New = Inr s \<longrightarrow>
      Get key now s = (('''', False), s)) \<and>
   (data s key = Some e \<and> expiresAt e \<noteq> 0 \<and> expiresAt e < now \<longrightarrow>
      Get key now s = (('''', False), s\<lparr>data := (data s)(key := None)\<rparr>) \<and>
      data (snd (Get key now s)) key = None)"
proof (intro conjI impI)
  show "snd (fst (Get key now s)) = (\<exists>e. data s key = Some e \<and> \<not> expired e now)"
    by (simp add: Get_def split: option.splits)
next
  assume "data s key = Some e \<and> \<not> expired e now"
  then show "Get key now s = ((value_e e, True), s)" by (simp add: Get_def)
next
  assume "data s key = None"
  then show "Get key now s = (('''', False), s)" by (simp add: Get_def)
next
  assume a: "(\<forall>c \<in> set cs. \<not> writes_key key c) \<and> run cs New = Inr s"
  have "data New key = None" by (simp add: New_def)
  with a run_absent [of cs key New s] have "data s key = None" by blast
  then show "Get key now s = (('''', False), s)" by (simp add: Get_def)
next
  assume a: "data s key = Some e \<and> expiresAt e \<noteq> 0 \<and> expiresAt e < now"
  then have "expired e now" by (simp add: expired_iff)
  with a show "Get key now s = (('''', False), s\<lparr>data := (data s)(key := None)\<rparr>)"
    by (simp add: Get_def)
  then show "data (snd (Get key now s)) key = None" by simp
qed

text \<open>
  At 104 in the store of the examples: \<open>a\<close> (expires at 105) is found, \<open>b\<close> (expired at
  103) is removed, \<open>z\<close> was never written.
\<close>

theorem C4_Get_witness:
  "data demo ''a'' = Some \<lparr>value_e = ''1'', expiresAt = 105\<rparr> \<and>
   \<not> expired \<lparr>value_e = ''1'', expiresAt = 105\<rparr> 104 \<and>
   Get ''a'' 104 demo = ((''1'', True), demo) \<and>
   data demo ''b'' = Some \<lparr>value_e = ''2'', expiresAt = 103\<rparr> \<and>
   Get ''b'' 104 demo = (('''', False), demo\<lparr>data := (data demo)(''b'' := None)\<rparr>) \<and>
   data (snd (Get ''b'' 104 demo)) ''b'' = None \<and>
   data demo ''z'' = None \<and>
   Get ''z'' 104 demo = (('''', False), demo) \<and>
   run [OpSet ''a'' ''1'' 5 100, OpSet ''b'' ''2'' 3 100, OpSet ''p'' ''yes'' 0 100] New = Inr demo \<and>
   \<not> writes_key ''z'' (OpSet ''a'' ''1'' 5 100) \<and>
   \<not> writes_key ''z'' (OpSet ''b'' ''2'' 3 100) \<and>
   \<not> writes_key ''z'' (OpSet ''p'' ''yes'' 0 100)"
proof -
  have a: "data demo ''a'' = Some \<lparr>value_e = ''1'', expiresAt = 105\<rparr> \<and>
      \<not> expired \<lparr>value_e = ''1'', expiresAt = 105\<rparr> 104"
    by (simp add: data_demo expired_iff)
  have b: "data demo ''b'' = Some \<lparr>value_e = ''2'', expiresAt = 103\<rparr> \<and>
      expiresAt \<lparr>value_e = ''2'', expiresAt = 103\<rparr> \<noteq> 0 \<and>
      expiresAt \<lparr>value_e = ''2'', expiresAt = 103\<rparr> < 104"
    by (simp add: data_demo)
  have z: "data demo ''z'' = None" by (rule data_demo)
  have r: "(\<forall>c \<in> set [OpSet ''a'' ''1'' 5 100, OpSet ''b'' ''2'' 3 100, OpSet ''p'' ''yes'' 0 100].
              \<not> writes_key ''z'' c) \<and>
      run [OpSet ''a'' ''1'' 5 100, OpSet ''b'' ''2'' 3 100, OpSet ''p'' ''yes'' 0 100] New = Inr demo"
    by (simp add: writes_key_def demo_def)
  from a
    C4_Get [where s = demo and key = "''a''" and now = 104
      and e = "\<lparr>value_e = ''1'', expiresAt = 105\<rparr>"]
  have ga: "Get ''a'' 104 demo = ((''1'', True), demo)" by simp
  from b
    C4_Get [where s = demo and key = "''b''" and now = 104
      and e = "\<lparr>value_e = ''2'', expiresAt = 103\<rparr>"]
  have gb: "Get ''b'' 104 demo = (('''', False), demo\<lparr>data := (data demo)(''b'' := None)\<rparr>) \<and>
      data (snd (Get ''b'' 104 demo)) ''b'' = None"
    by blast
  from r
    C4_Get [where s = demo and key = "''z''" and now = 104
      and cs = "[OpSet ''a'' ''1'' 5 100, OpSet ''b'' ''2'' 3 100, OpSet ''p'' ''yes'' 0 100]"]
  have gz: "Get ''z'' 104 demo = (('''', False), demo)" by blast
  from a b z r ga gb gz show ?thesis by simp
qed

subsection \<open>Set\<close>

text \<open>
  C5: Set stores, under the key, a new entry with the value, whatever was there before,
  and changes nothing else; with ttl = 0 the entry has the zero expiresAt and is never
  expired, so that Get finds the value at any time; with ttl > 0 its expiresAt is
  now + ttl; and after two calls of Set on one key the store is the one the second call
  alone would have left, so that Get sees the second value and the second ttl only.
\<close>

theorem C5_Set:
  "Set key v ttl now s =
     s\<lparr>data := (data s)(key \<mapsto> \<lparr>value_e = v, expiresAt = (if ttl > 0 then now + ttl else 0)\<rparr>)\<rparr> \<and>
   (ttl = 0 \<longrightarrow>
      data (Set key v ttl now s) key = Some \<lparr>value_e = v, expiresAt = 0\<rparr> \<and>
      \<not> expired \<lparr>value_e = v, expiresAt = 0\<rparr> t \<and>
      Get key t (Set key v ttl now s) = ((v, True), Set key v ttl now s)) \<and>
   (ttl > 0 \<longrightarrow>
      data (Set key v ttl now s) key = Some \<lparr>value_e = v, expiresAt = now + ttl\<rparr>) \<and>
   Set key v2 ttl2 now2 (Set key v1 ttl1 now1 s) = Set key v2 ttl2 now2 s \<and>
   fst (Get key t (Set key v2 ttl2 now2 (Set key v1 ttl1 now1 s))) =
     (if ttl2 > 0 \<and> now2 + ttl2 \<noteq> 0 \<and> now2 + ttl2 < t then ('''', False) else (v2, True))"
  by (simp add: Set_def Get_def Add_def expired_iff Let_def)

text \<open>
  On a new Store: a first Set with a ttl of 50 at 1000, then a second Set without ttl at
  1010; long after the first ttl, Get returns the second value.
\<close>

theorem C5_Set_witness:
  "data (Set ''k'' ''v1'' 50 1000 New) ''k'' = Some \<lparr>value_e = ''v1'', expiresAt = 1050\<rparr> \<and>
   data (Set ''k'' ''v2'' 0 1010 New) ''k'' = Some \<lparr>value_e = ''v2'', expiresAt = 0\<rparr> \<and>
   Set ''k'' ''v2'' 0 1010 (Set ''k'' ''v1'' 50 1000 New) = Set ''k'' ''v2'' 0 1010 New \<and>
   fst (Get ''k'' 2000 (Set ''k'' ''v2'' 0 1010 (Set ''k'' ''v1'' 50 1000 New))) = (''v2'', True)"
proof -
  note first = C5_Set [where s = New and key = "''k''" and v = "''v1''" and ttl = 50
      and now = 1000 and ?v1.0 = "''v1''" and ?ttl1.0 = 50 and ?now1.0 = 1000
      and ?v2.0 = "''v2''" and ?ttl2.0 = 0 and ?now2.0 = 1010 and t = 2000]
  note second = C5_Set [where s = New and key = "''k''" and v = "''v2''" and ttl = 0
      and now = 1010]
  have p: "(50::int) > 0" by simp
  from first p
  have one: "data (Set ''k'' ''v1'' 50 1000 New) ''k'' =
      Some \<lparr>value_e = ''v1'', expiresAt = 1000 + 50\<rparr>"
    by blast
  from second
  have two: "data (Set ''k'' ''v2'' 0 1010 New) ''k'' = Some \<lparr>value_e = ''v2'', expiresAt = 0\<rparr>"
    by blast
  from first
  have three: "Set ''k'' ''v2'' 0 1010 (Set ''k'' ''v1'' 50 1000 New) = Set ''k'' ''v2'' 0 1010 New"
    by blast
  from first
  have four: "fst (Get ''k'' 2000 (Set ''k'' ''v2'' 0 1010 (Set ''k'' ''v1'' 50 1000 New))) =
      (if (0::int) > 0 \<and> (1010::int) + 0 \<noteq> 0 \<and> (1010::int) + 0 < 2000
       then ('''', False) else (''v2'', True))"
    by blast
  from one two three four show ?thesis by simp
qed

subsection \<open>Delete\<close>

text \<open>
  C6: Delete returns true exactly when the key is present with an entry that is not
  expired, and false when the key is absent or its entry is expired; in every case the
  store afterwards is the store before without the key, so an expired entry is removed
  too; and a Get of the key after the Delete, at any time, reports not found.
\<close>

theorem C6_Delete:
  "fst (Delete key now s) = (\<exists>e. data s key = Some e \<and> \<not> expired e now) \<and>
   snd (Delete key now s) = s\<lparr>data := (data s)(key := None)\<rparr> \<and>
   data (snd (Delete key now s)) key = None \<and>
   fst (Get key t (snd (Delete key now s))) = ('''', False)"
  by (simp add: Delete_def Get_def split: option.splits)

text \<open>At 104 in the store of the examples: \<open>a\<close> is live, \<open>b\<close> has expired, \<open>z\<close> is absent.\<close>

theorem C6_Delete_witness:
  "fst (Delete ''a'' 104 demo) = True \<and>
   fst (Delete ''b'' 104 demo) = False \<and>
   fst (Delete ''z'' 104 demo) = False \<and>
   snd (Delete ''b'' 104 demo) = demo\<lparr>data := (data demo)(''b'' := None)\<rparr> \<and>
   fst (Get ''a'' 104 (snd (Delete ''a'' 104 demo))) = ('''', False)"
proof -
  note a = C6_Delete [where s = demo and key = "''a''" and now = 104 and t = 104]
  note b = C6_Delete [where s = demo and key = "''b''" and now = 104]
  note z = C6_Delete [where s = demo and key = "''z''" and now = 104]
  from a have "fst (Delete ''a'' 104 demo) =
      (\<exists>e. data demo ''a'' = Some e \<and> \<not> expired e 104)"
    by blast
  then have 1: "fst (Delete ''a'' 104 demo) = True"
    by (simp add: data_demo expired_iff)
  from b have "fst (Delete ''b'' 104 demo) =
      (\<exists>e. data demo ''b'' = Some e \<and> \<not> expired e 104)"
    by blast
  then have 2: "fst (Delete ''b'' 104 demo) = False"
    by (simp add: data_demo expired_iff)
  from z have "fst (Delete ''z'' 104 demo) =
      (\<exists>e. data demo ''z'' = Some e \<and> \<not> expired e 104)"
    by blast
  then have 3: "fst (Delete ''z'' 104 demo) = False"
    by (simp add: data_demo)
  from b have 4: "snd (Delete ''b'' 104 demo) = demo\<lparr>data := (data demo)(''b'' := None)\<rparr>"
    by blast
  from a have 5: "fst (Get ''a'' 104 (snd (Delete ''a'' 104 demo))) = ('''', False)"
    by blast
  from 1 2 3 4 5 show ?thesis by blast
qed

subsection \<open>List\<close>

text \<open>
  C7, as stated: List evaluates every entry against one and the same instant. It does
  not: each iteration calls \<open>e.expired()\<close>, which reads the clock again. In the store
  of the examples, with the clock at 101, 102 and 106 for the three entries, List
  returns \<open>p\<close> and \<open>b\<close>: \<open>b\<close> (expires at 103) was visited before its expiry and \<open>a\<close>
  (expires at 105) after its own, and at no single instant is \<open>b\<close> live and \<open>a\<close> expired.
\<close>

theorem C7_no_single_instant:
  "range_order (map fst [(''p'', 101), (''b'', 102), (''a'', 106)]) (data demo) \<and>
   fst (List [(''p'', 101), (''b'', 102), (''a'', 106)] demo) = [''p'', ''b''] \<and>
   \<not> (\<exists>now. set (fst (List [(''p'', 101), (''b'', 102), (''a'', 106)] demo)) =
              {k. \<exists>e. data demo k = Some e \<and> \<not> expired e now})"
proof (intro conjI notI)
  show "range_order (map fst [(''p'', 101), (''b'', 102), (''a'', 106)]) (data demo)"
    by (auto simp: range_order_def data_demo)
  show l: "fst (List [(''p'', 101), (''b'', 102), (''a'', 106)] demo) = [''p'', ''b'']"
    by (simp add: List_def data_demo expired_iff)
  assume "\<exists>now. set (fst (List [(''p'', 101), (''b'', 102), (''a'', 106)] demo)) =
              {k. \<exists>e. data demo k = Some e \<and> \<not> expired e now}"
  then obtain now where
    n: "set [''p'', ''b''] = {k. \<exists>e. data demo k = Some e \<and> \<not> expired e now}"
    unfolding l by blast
  have "''b'' \<in> {k. \<exists>e. data demo k = Some e \<and> \<not> expired e now}"
    unfolding n [symmetric] by simp
  then have b: "now \<le> 103" by (simp add: data_demo expired_iff)
  have "''a'' \<notin> {k. \<exists>e. data demo k = Some e \<and> \<not> expired e now}"
    unfolding n [symmetric] by simp
  then have "105 < now" by (simp add: data_demo expired_iff)
  with b show False by simp
qed

text \<open>
  C7, amended: List returns, each once, exactly the keys that are present with an entry
  that is not expired at the clock reading taken when that entry is visited, one reading
  for each entry. When all the readings are one instant, these are exactly the keys
  present and unexpired at that instant. When the readings lie between the instant of
  the call and the instant of the return, every key unexpired at the return is in the
  result and every key in the result is unexpired at the call: keys whose entries had
  expired before the call are excluded, swept or not.
\<close>

theorem C7_List:
  "range_order (map fst visits) (data s) \<Longrightarrow>
   set (fst (List visits s)) =
     {k. \<exists>e now. data s k = Some e \<and> (k, now) \<in> set visits \<and> \<not> expired e now} \<and>
   distinct (fst (List visits s)) \<and>
   ((\<forall>v \<in> set visits. snd v = now) \<longrightarrow>
      set (fst (List visits s)) = {k. \<exists>e. data s k = Some e \<and> \<not> expired e now}) \<and>
   ((\<forall>v \<in> set visits. t0 \<le> snd v \<and> snd v \<le> t1) \<longrightarrow>
      {k. \<exists>e. data s k = Some e \<and> \<not> expired e t1} \<subseteq> set (fst (List visits s)) \<and>
      set (fst (List visits s)) \<subseteq> {k. \<exists>e. data s k = Some e \<and> \<not> expired e t0})"
proof -
  assume r: "range_order (map fst visits) (data s)"
  then have d: "distinct (map fst visits)" and v: "fst ` set visits = dom (data s)"
    by (simp_all add: range_order_def)
  have all: "\<exists>now. (k, now) \<in> set visits" if "data s k = Some e" for k e
  proof -
    from that have "k \<in> fst ` set visits" unfolding v by blast
    then show ?thesis by force
  qed
  have one: "set (fst (List visits s)) = {k. \<exists>e. data s k = Some e \<and> \<not> expired e now}"
    if "\<forall>v \<in> set visits. snd v = now"
  proof -
    from that have "\<And>k t. (k, t) \<in> set visits \<Longrightarrow> t = now" by force
    with all show ?thesis unfolding set_List by blast
  qed
  have lower: "{k. \<exists>e. data s k = Some e \<and> \<not> expired e t1} \<subseteq> set (fst (List visits s))"
    if "\<forall>v \<in> set visits. t0 \<le> snd v \<and> snd v \<le> t1"
  proof
    fix k assume "k \<in> {k. \<exists>e. data s k = Some e \<and> \<not> expired e t1}"
    then obtain e where e: "data s k = Some e" "\<not> expired e t1" by blast
    from all [OF e(1)] obtain t where t: "(k, t) \<in> set visits" by blast
    with that have "t \<le> t1" by force
    with e(2) have "\<not> expired e t" by (auto simp: expired_iff)
    with e(1) t show "k \<in> set (fst (List visits s))" unfolding set_List by blast
  qed
  have upper: "set (fst (List visits s)) \<subseteq> {k. \<exists>e. data s k = Some e \<and> \<not> expired e t0}"
    if "\<forall>v \<in> set visits. t0 \<le> snd v \<and> snd v \<le> t1"
  proof
    fix k assume "k \<in> set (fst (List visits s))"
    then obtain e t where e: "data s k = Some e" "(k, t) \<in> set visits" "\<not> expired e t"
      unfolding set_List by blast
    from e(2) that have "t0 \<le> t" by force
    with e(3) have "\<not> expired e t0" by (auto simp: expired_iff)
    with e(1) show "k \<in> {k. \<exists>e. data s k = Some e \<and> \<not> expired e t0}" by blast
  qed
  from d one lower upper show ?thesis
    by (simp add: set_List distinct_List)
qed

text \<open>
  In the store of the examples, with every reading at 104: \<open>b\<close>, expired since 103 and
  still in the map, is left out. With the readings 101, 102 and 106 the result lies
  between the keys live at 106 and the keys live at 101.
\<close>

theorem C7_List_witness:
  "range_order (map fst [(''p'', 104), (''b'', 104), (''a'', 104)]) (data demo) \<and>
   fst (List [(''p'', 104), (''b'', 104), (''a'', 104)] demo) = [''p'', ''a''] \<and>
   data demo ''b'' = Some \<lparr>value_e = ''2'', expiresAt = 103\<rparr> \<and>
   set (fst (List [(''p'', 104), (''b'', 104), (''a'', 104)] demo)) =
     {k. \<exists>e. data demo k = Some e \<and> \<not> expired e 104} \<and>
   distinct (fst (List [(''p'', 104), (''b'', 104), (''a'', 104)] demo)) \<and>
   {k. \<exists>e. data demo k = Some e \<and> \<not> expired e 106}
     \<subseteq> set (fst (List [(''p'', 101), (''b'', 102), (''a'', 106)] demo)) \<and>
   set (fst (List [(''p'', 101), (''b'', 102), (''a'', 106)] demo))
     \<subseteq> {k. \<exists>e. data demo k = Some e \<and> \<not> expired e 101}"
proof -
  have r: "range_order (map fst [(''p'', 104), (''b'', 104), (''a'', 104)]) (data demo)"
    by (auto simp: range_order_def data_demo)
  have r': "range_order (map fst [(''p'', 101), (''b'', 102), (''a'', 106)]) (data demo)"
    by (auto simp: range_order_def data_demo)
  have same: "\<forall>v \<in> set [(''p'', 104), (''b'', 104), (''a'', 104)]. snd v = (104::int)"
    by simp
  have between: "\<forall>v \<in> set [(''p'', 101), (''b'', 102), (''a'', 106)].
      (101::int) \<le> snd v \<and> snd v \<le> (106::int)"
    by simp
  have l: "fst (List [(''p'', 104), (''b'', 104), (''a'', 104)] demo) = [''p'', ''a'']"
    by (simp add: List_def data_demo expired_iff)
  from same C7_List [OF r, where now = 104]
  have 1: "set (fst (List [(''p'', 104), (''b'', 104), (''a'', 104)] demo)) =
      {k. \<exists>e. data demo k = Some e \<and> \<not> expired e 104} \<and>
      distinct (fst (List [(''p'', 104), (''b'', 104), (''a'', 104)] demo))"
    by blast
  from between C7_List [OF r', where ?t0.0 = 101 and ?t1.0 = 106]
  have 2: "{k. \<exists>e. data demo k = Some e \<and> \<not> expired e 106}
        \<subseteq> set (fst (List [(''p'', 101), (''b'', 102), (''a'', 106)] demo)) \<and>
      set (fst (List [(''p'', 101), (''b'', 102), (''a'', 106)] demo))
        \<subseteq> {k. \<exists>e. data demo k = Some e \<and> \<not> expired e 101}"
    by blast
  from r l 1 2 data_demo(2) show ?thesis by blast
qed

text \<open>
  C10: List returns the store it was given: an entry that List finds expired is left out
  of the result and stays in the map. When an operation does take a key out of the
  map, the operation is a Get of that key that found its entry expired, a Delete of that
  key, or a sweep that found its entry expired; Set, List and Stop never do.
\<close>

theorem C10_List_leaves_store:
  "snd (List visits s) = s \<and>
   (data s k = Some e \<and> apply_op c s = Inr s' \<and> data s' k = None \<longrightarrow>
      (\<exists>t. c = OpGet k t \<and> expired e t) \<or> (\<exists>t. c = OpDelete k t) \<or>
      (\<exists>ks t. c = OpSweep ks t \<and> k \<in> set ks \<and> expired e t))"
proof (intro conjI impI)
  show "snd (List visits s) = s" by (simp add: List_def List_loop_store)
next
  assume a: "data s k = Some e \<and> apply_op c s = Inr s' \<and> data s' k = None"
  then show "(\<exists>t. c = OpGet k t \<and> expired e t) \<or> (\<exists>t. c = OpDelete k t) \<or>
      (\<exists>ks t. c = OpSweep ks t \<and> k \<in> set ks \<and> expired e t)"
    by (cases c)
      (auto simp: Get_def Set_def Delete_def List_def List_loop_store sweep_def
        sweep_loop_data Stop_def Let_def split: option.splits if_splits chan.splits)
qed

text \<open>
  In the store of the examples at 104, List leaves the expired \<open>b\<close> out and in the map;
  the Get of \<open>b\<close> takes it out.
\<close>

theorem C10_List_leaves_store_witness:
  "fst (List [(''p'', 104), (''b'', 104), (''a'', 104)] demo) = [''p'', ''a''] \<and>
   snd (List [(''p'', 104), (''b'', 104), (''a'', 104)] demo) = demo \<and>
   data demo ''b'' = Some \<lparr>value_e = ''2'', expiresAt = 103\<rparr> \<and>
   apply_op (OpGet ''b'' 104) demo = Inr (demo\<lparr>data := (data demo)(''b'' := None)\<rparr>) \<and>
   data (demo\<lparr>data := (data demo)(''b'' := None)\<rparr>) ''b'' = None \<and>
   expired \<lparr>value_e = ''2'', expiresAt = 103\<rparr> 104"
proof -
  note t = C10_List_leaves_store [where s = demo and k = "''b''" and c = "OpGet ''b'' 104"
      and visits = "[(''p'', 104), (''b'', 104), (''a'', 104)]"
      and e = "\<lparr>value_e = ''2'', expiresAt = 103\<rparr>"
      and s' = "demo\<lparr>data := (data demo)(''b'' := None)\<rparr>"]
  have l: "fst (List [(''p'', 104), (''b'', 104), (''a'', 104)] demo) = [''p'', ''a'']"
    by (simp add: List_def data_demo expired_iff)
  have h: "data demo ''b'' = Some \<lparr>value_e = ''2'', expiresAt = 103\<rparr> \<and>
      apply_op (OpGet ''b'' 104) demo = Inr (demo\<lparr>data := (data demo)(''b'' := None)\<rparr>) \<and>
      data (demo\<lparr>data := (data demo)(''b'' := None)\<rparr>) ''b'' = None"
    by (simp add: data_demo Get_def expired_iff)
  from t h have "(\<exists>t. OpGet ''b'' 104 = OpGet ''b'' t \<and> expired \<lparr>value_e = ''2'', expiresAt = 103\<rparr> t) \<or>
      (\<exists>t. OpGet ''b'' 104 = OpDelete ''b'' t) \<or>
      (\<exists>ks t. OpGet ''b'' 104 = OpSweep ks t \<and> ''b'' \<in> set ks \<and>
         expired \<lparr>value_e = ''2'', expiresAt = 103\<rparr> t)"
    by blast
  then have x: "expired \<lparr>value_e = ''2'', expiresAt = 103\<rparr> 104" by simp
  from t have "snd (List [(''p'', 104), (''b'', 104), (''a'', 104)] demo) = demo" by blast
  with l h x show ?thesis by blast
qed

subsection \<open>The sweeper\<close>

text \<open>
  C8: one sweep, with the clock read as now, leaves the store with exactly the entries
  that are not expired at now, each under its key and with its value and expiresAt as
  they were; every entry expired at now is gone, and nothing else of the store changes.
\<close>

theorem C8_sweep:
  "range_order ks (data s) \<Longrightarrow>
   sweep ks now s =
     s\<lparr>data := (\<lambda>k. case data s k of
                     None \<Rightarrow> None
                   | Some e \<Rightarrow> if expired e now then None else Some e)\<rparr>"
proof -
  assume "range_order ks (data s)"
  then have "\<And>k e. data s k = Some e \<Longrightarrow> k \<in> set ks"
    by (auto simp: range_order_def)
  then have "(\<lambda>k. case data s k of None \<Rightarrow> None
                | Some e \<Rightarrow> if k \<in> set ks \<and> expired e now then None else Some e) =
             (\<lambda>k. case data s k of None \<Rightarrow> None
                | Some e \<Rightarrow> if expired e now then None else Some e)"
    by (auto split: option.splits)
  then show ?thesis by (simp add: sweep_def sweep_loop_eq)
qed

text \<open>A sweep of the store of the examples at 104 removes \<open>b\<close> and nothing else.\<close>

theorem C8_sweep_witness:
  "range_order [''b'', ''p'', ''a''] (data demo) \<and>
   data (sweep [''b'', ''p'', ''a''] 104 demo) ''b'' = None \<and>
   data (sweep [''b'', ''p'', ''a''] 104 demo) ''a'' = Some \<lparr>value_e = ''1'', expiresAt = 105\<rparr> \<and>
   data (sweep [''b'', ''p'', ''a''] 104 demo) ''p'' = Some \<lparr>value_e = ''yes'', expiresAt = 0\<rparr> \<and>
   data (sweep [''b'', ''p'', ''a''] 104 demo) ''z'' = None \<and>
   mu (sweep [''b'', ''p'', ''a''] 104 demo) = mu demo \<and>
   stopGC (sweep [''b'', ''p'', ''a''] 104 demo) = stopGC demo"
proof -
  have r: "range_order [''b'', ''p'', ''a''] (data demo)"
    by (auto simp: range_order_def data_demo)
  from r C8_sweep [OF r, of 104] show ?thesis
    by (simp add: data_demo expired_iff)
qed

subsection \<open>A negative ttl\<close>

text \<open>
  C9: with a ttl below zero Set does what it does with ttl = 0: the entry it stores has
  the zero expiresAt and is never expired, Get of the key returns the value and found,
  whatever the clock reads, and leaves the store as it is, so that any number of later
  calls of Get do the same.
\<close>

theorem C9_negative_ttl:
  "ttl < 0 \<Longrightarrow>
   Set key v ttl now s = Set key v 0 now s \<and>
   data (Set key v ttl now s) key = Some \<lparr>value_e = v, expiresAt = 0\<rparr> \<and>
   \<not> expired \<lparr>value_e = v, expiresAt = 0\<rparr> t \<and>
   Get key t (Set key v ttl now s) = ((v, True), Set key v ttl now s) \<and>
   run (map (OpGet key) ts) (Set key v ttl now s) = Inr (Set key v ttl now s)"
proof -
  assume "ttl < 0"
  then have d: "data (Set key v ttl now s) key = Some \<lparr>value_e = v, expiresAt = 0\<rparr>"
    and z: "Set key v ttl now s = Set key v 0 now s"
    by (simp_all add: Set_def)
  from d have "run (map (OpGet key) ts) (Set key v ttl now s) = Inr (Set key v ttl now s)"
    by (rule run_Gets_found) simp
  with d z show ?thesis by (simp add: Get_def expired_iff)
qed

theorem C9_negative_ttl_witness:
  "(-5::int) < 0 \<and>
   Set ''k'' ''v'' (-5) 1000 New = Set ''k'' ''v'' 0 1000 New \<and>
   data (Set ''k'' ''v'' (-5) 1000 New) ''k'' = Some \<lparr>value_e = ''v'', expiresAt = 0\<rparr> \<and>
   Get ''k'' 999999 (Set ''k'' ''v'' (-5) 1000 New) =
     ((''v'', True), Set ''k'' ''v'' (-5) 1000 New) \<and>
   run (map (OpGet ''k'') [2000, 3000]) (Set ''k'' ''v'' (-5) 1000 New) =
     Inr (Set ''k'' ''v'' (-5) 1000 New)"
proof -
  have n: "(-5::int) < 0" by simp
  from n C9_negative_ttl [OF n, where key = "''k''" and v = "''v''" and now = 1000
      and s = New and t = 999999 and ts = "[2000, 3000]"]
  show ?thesis by blast
qed

subsection \<open>The race in the lazy expiry of Get\<close>

text \<open>
  C2: take a store whose lock is free and a key whose entry is expired at t1. Get finds
  the entry expired and gives the read lock back; nobody holds the lock then, and Get
  is about to take the write lock. A concurrent Set of the same key runs inside that
  window and stores a fresh entry, not expired at t3. Get then takes the write lock and
  deletes the key without looking at the entry again: the run of the two callers ends
  with the key absent, the fresh value lost. In either order of the two calls, one
  after the other, a Get at t3 would have found the fresh value.
\<close>

theorem C2_lazy_expiry_race:
  "mu s = unlocked \<Longrightarrow> data s key = Some e0 \<Longrightarrow> expired e0 t1 \<Longrightarrow> t1 \<le> t2 \<Longrightarrow> t2 \<le> t3 \<Longrightarrow>
   \<not> expired (fresh_entry v ttl t2) t3 \<Longrightarrow>
   clock_monotone t1 (race_schedule t1 t2 t3) \<and>
   exec [(0, t1), (0, t1), (0, t1), (0, t1)]
        (s, [Get_call key Get_RLock, Set_call key v ttl Set_entry]) =
     Some (s, [Get_call key Get_Lock, Set_call key v ttl Set_entry]) \<and>
   exec [(1, t2), (1, t2), (1, t2), (1, t2)]
        (s, [Get_call key Get_Lock, Set_call key v ttl Set_entry]) =
     Some (s\<lparr>data := (data s)(key \<mapsto> fresh_entry v ttl t2)\<rparr>,
           [Get_call key Get_Lock, Set_call key v ttl Set_return]) \<and>
   exec [(0, t3), (0, t3), (0, t3)]
        (s\<lparr>data := (data s)(key \<mapsto> fresh_entry v ttl t2)\<rparr>,
         [Get_call key Get_Lock, Set_call key v ttl Set_return]) =
     Some (s\<lparr>data := (data s)(key := None)\<rparr>,
           [Get_call key (Get_return '''' False), Set_call key v ttl Set_return]) \<and>
   exec (race_schedule t1 t2 t3)
        (s, [Get_call key Get_RLock, Set_call key v ttl Set_entry]) =
     Some (s\<lparr>data := (data s)(key := None)\<rparr>,
           [Get_call key (Get_return '''' False), Set_call key v ttl Set_return]) \<and>
   Get key t3 (Set key v ttl t2 (snd (Get key t1 s))) =
     ((v, True), s\<lparr>data := (data s)(key \<mapsto> fresh_entry v ttl t2)\<rparr>) \<and>
   Get key t3 (Set key v ttl t2 s) =
     ((v, True), s\<lparr>data := (data s)(key \<mapsto> fresh_entry v ttl t2)\<rparr>)"
  by (cases s)
    (auto simp: race_schedule_def fresh_entry_def Get_def Set_def with_mu_def RLock_def
      RUnlock_def Lock_def Unlock_def unlocked_def Let_def split: if_splits)

text \<open>
  In the store of the examples: \<open>b\<close> has expired at 103; Get reads the clock at 110, Set
  stores a value with a ttl of 60 at 120, and Get deletes it at 130.
\<close>

theorem C2_lazy_expiry_race_witness:
  "mu demo = unlocked \<and>
   data demo ''b'' = Some \<lparr>value_e = ''2'', expiresAt = 103\<rparr> \<and>
   expired \<lparr>value_e = ''2'', expiresAt = 103\<rparr> 110 \<and>
   fresh_entry ''new'' 60 120 = \<lparr>value_e = ''new'', expiresAt = 180\<rparr> \<and>
   \<not> expired (fresh_entry ''new'' 60 120) 130 \<and>
   exec (race_schedule 110 120 130)
        (demo, [Get_call ''b'' Get_RLock, Set_call ''b'' ''new'' 60 Set_entry]) =
     Some (demo\<lparr>data := (data demo)(''b'' := None)\<rparr>,
           [Get_call ''b'' (Get_return '''' False), Set_call ''b'' ''new'' 60 Set_return]) \<and>
   Get ''b'' 130 (Set ''b'' ''new'' 60 120 demo) =
     ((''new'', True), demo\<lparr>data := (data demo)(''b'' \<mapsto> fresh_entry ''new'' 60 120)\<rparr>)"
proof -
  have m: "mu demo = unlocked" by (simp add: demo_eq)
  have d: "data demo ''b'' = Some \<lparr>value_e = ''2'', expiresAt = 103\<rparr>" by (rule data_demo)
  have x: "expired \<lparr>value_e = ''2'', expiresAt = 103\<rparr> 110" by (simp add: expired_iff)
  have f: "fresh_entry ''new'' 60 120 = \<lparr>value_e = ''new'', expiresAt = 180\<rparr>"
    by (simp add: fresh_entry_def Add_def)
  have u: "\<not> expired (fresh_entry ''new'' 60 120) 130" by (simp add: f expired_iff)
  have t: "(110::int) \<le> 120" "(120::int) \<le> 130" by simp_all
  from m d x f u C2_lazy_expiry_race [OF m d x t u]
  show ?thesis by blast
qed

end
